theory Spec2Isabelle
  imports Complex_Main
begin

section \<open>JavaScript values used by the image-loading tracker\<close>

text \<open>
  The tracker of \<open>utils/imagePerformance\<close> keeps four counters of type \<open>number\<close>, a
  \<open>Set<string>\<close> of image keys and a constant capacity. The counters only ever hold
  the integer passed to \<open>startTracking\<close>, clock readings and the results of \<open>++\<close>, so
  they are modelled as \<open>int\<close> (exact below \<open>2^53\<close>). The one quotient the class
  computes, in \<open>getProgress\<close>, is a JavaScript number: a division by zero does not raise
  there but yields \<open>NaN\<close> or an infinity, which the type \<open>jsnum\<close> keeps apart from the
  finite results. A finite quotient is taken as the exact real number.
\<close>

datatype jsnum = Num real | Infinity | NegInfinity | NaN

definition js_div :: "int \<Rightarrow> int \<Rightarrow> jsnum" where
  "js_div a b =
     (if b = 0 then (if a = 0 then NaN else if 0 < a then Infinity else NegInfinity)
      else Num (real_of_int a / real_of_int b))"

text \<open>Membership of a JavaScript number in the closed interval from 0 to 1.\<close>

definition in_unit_interval :: "jsnum \<Rightarrow> bool" where
  "in_unit_interval x = (case x of Num r \<Rightarrow> 0 \<le> r \<and> r \<le> 1 | _ \<Rightarrow> False)"

definition non_negative :: "jsnum \<Rightarrow> bool" where
  "non_negative x = (case x of Num r \<Rightarrow> 0 \<le> r | _ \<Rightarrow> False)"

text \<open>
  An image source as the tracker receives it (\<open>imageSource: any\<close>): a plain string, an
  object with or without a string \<open>uri\<close> field, the number a bundler's \<open>require\<close>
  returns, \<open>null\<close> or \<open>undefined\<close>.
\<close>

datatype image_source =
    SrcString string
  | SrcObject "string option"
  | SrcNumber int
  | SrcNull
  | SrcUndefined

text \<open>\<open>String(n)\<close> for an integer \<open>n\<close>: its decimal digits, with a minus sign below zero.\<close>

fun string_of_nat :: "nat \<Rightarrow> string" where
  "string_of_nat n =
     (if n < 10 then [''0123456789'' ! n]
      else string_of_nat (n div 10) @ [''0123456789'' ! (n mod 10)])"

declare string_of_nat.simps [simp del]

definition string_of_int :: "int \<Rightarrow> string" where
  "string_of_int i = (if i < 0 then CHR ''-'' # string_of_nat (nat (- i)) else string_of_nat (nat i))"

text \<open>\<open>String(imageSource)\<close>, the fallback of the key derivation.\<close>

fun js_String :: "image_source \<Rightarrow> string" where
  "js_String (SrcString s) = s"
| "js_String (SrcObject u) = ''[object Object]''"
| "js_String (SrcNumber n) = string_of_int n"
| "js_String SrcNull = ''null''"
| "js_String SrcUndefined = ''undefined''"

text \<open>A string is truthy unless it is empty.\<close>

definition truthy :: "string \<Rightarrow> bool" where
  "truthy s = (s \<noteq> [])"

text \<open>
  The key both \<open>isImageCached\<close> and \<open>cacheImage\<close> compute:
  \<^verbatim>\<open>typeof imageSource === "string" ? imageSource : imageSource?.uri || String(imageSource)\<close>.
  The \<open>uri\<close> of a number, of \<open>null\<close> and of \<open>undefined\<close> is \<open>undefined\<close>, which is falsy,
  as is an empty \<open>uri\<close>.
\<close>

fun imageKey :: "image_source \<Rightarrow> string" where
  "imageKey (SrcString s) = s"
| "imageKey (SrcObject (Some u)) = (if truthy u then u else js_String (SrcObject (Some u)))"
| "imageKey src = js_String src"

section \<open>The host environment and the effects on it\<close>

text \<open>
  What the class reads from its host: the platform, whether \<open>window.performance\<close>
  exists, the development flag, whether \<open>clearMarks\<close> and \<open>measure\<close> throw (a throw of
  \<open>clearMeasures\<close> is the last thing in its \<open>try\<close> and changes nothing), and the heap size
  when \<open>performance.memory\<close> is exposed. The clock reading \<open>Date.now()\<close> is an argument of
  each operation that reads it.
\<close>

record env =
  os_web :: bool
  has_performance :: bool
  dev :: bool
  clearMarks_throws :: bool
  measure_throws :: bool
  usedJSHeapSize :: "nat option"

text \<open>The calls made on the timeline, the console and the caller's callbacks.\<close>

datatype event =
    PerfClearMarks string
  | PerfClearMeasures string
  | PerfMark string
  | PerfMeasure string string string
  | WarnMeasurementFailed
  | LogLoadingComplete int int
  | LogMemoryUsage int
  | LogCacheCleared
  | WarnImageFailed image_source
  | CallOnLoad
  | CallOnError
  | ScheduleRelease nat

datatype js_error = TypeError

datatype outcome = Returned | Threw js_error

section \<open>The tracker\<close>

record metrics =
  imageLoadStart :: int
  imageLoadEnd :: int
  totalImages :: int
  loadedImages :: int

text \<open>
  The \<open>Set<string>\<close> is a list without duplicates in insertion order, which is the
  order a JavaScript set iterates in.
\<close>

record tracker =
  metrics :: metrics
  imageCache :: "string list"

definition maxCacheSize :: nat where
  "maxCacheSize = 50"

definition imagePerformance :: tracker where
  "imagePerformance =
     \<lparr>metrics = \<lparr>imageLoadStart = 0, imageLoadEnd = 0, totalImages = 0, loadedImages = 0\<rparr>,
      imageCache = []\<rparr>"

definition set_has :: "string \<Rightarrow> string list \<Rightarrow> bool" where
  "set_has k xs = (k \<in> set xs)"

definition set_add :: "string \<Rightarrow> string list \<Rightarrow> string list" where
  "set_add k xs = (if k \<in> set xs then xs else xs @ [k])"

definition set_delete :: "string \<Rightarrow> string list \<Rightarrow> string list" where
  "set_delete k xs = removeAll k xs"

text \<open>\<open>values().next().value\<close>: the first entry, or \<open>undefined\<close> for the empty set.\<close>

definition set_first :: "string list \<Rightarrow> string option" where
  "set_first xs = (case xs of [] \<Rightarrow> None | x # _ \<Rightarrow> Some x)"

text \<open>The timeline calls of \<open>startTracking\<close>; a throw inside the \<open>try\<close> skips its rest.\<close>

definition startTracking_events :: "env \<Rightarrow> event list" where
  "startTracking_events e =
     (if os_web e \<and> has_performance e then
        [PerfClearMarks ''image-loading-start'']
        @ (if clearMarks_throws e then [] else [PerfClearMeasures ''image-loading-duration''])
        @ [PerfMark ''image-loading-start'']
      else [])"

definition startTracking :: "env \<Rightarrow> int \<Rightarrow> int \<Rightarrow> tracker \<Rightarrow> event list \<times> tracker" where
  "startTracking e now n t =
     (startTracking_events e,
      t\<lparr>metrics := (metrics t)\<lparr>imageLoadStart := now, totalImages := n, loadedImages := 0\<rparr>\<rparr>)"

text \<open>\<open>Math.round(usedJSHeapSize / 1024 / 1024)\<close>, rounding halves up.\<close>

definition heap_megabytes :: "nat \<Rightarrow> int" where
  "heap_megabytes b = (2 * int b + 1048576) div 2097152"

text \<open>The heap log line, emitted when \<open>performance.memory\<close> is exposed.\<close>

fun memory_events :: "nat option \<Rightarrow> event list" where
  "memory_events None = []"
| "memory_events (Some b) = [LogMemoryUsage (heap_megabytes b)]"

text \<open>
  The body of the completion branch of \<open>onImageLoaded\<close>, after the end time has been
  stored: what it emits, and whether it returns. Reading \<open>window.performance.memory\<close>
  in a development build on the web without \<open>window.performance\<close> throws.
\<close>

definition completion_events :: "env \<Rightarrow> int \<Rightarrow> int \<Rightarrow> event list" where
  "completion_events e loadTime n =
     (if os_web e \<and> has_performance e then
        [PerfMark ''image-loading-end'',
         PerfMeasure ''image-loading-duration'' ''image-loading-start'' ''image-loading-end'']
        @ (if measure_throws e then [WarnMeasurementFailed] else [])
      else [])
     @ (if dev e then [LogLoadingComplete loadTime n] else [])
     @ (if dev e \<and> os_web e \<and> has_performance e then memory_events (usedJSHeapSize e)
        else [])"

definition completion_outcome :: "env \<Rightarrow> outcome" where
  "completion_outcome e =
     (if dev e \<and> os_web e \<and> \<not> has_performance e then Threw TypeError else Returned)"

definition onImageLoaded :: "env \<Rightarrow> int \<Rightarrow> tracker \<Rightarrow> outcome \<times> event list \<times> tracker" where
  "onImageLoaded e now t =
     (let m = (metrics t)\<lparr>loadedImages := loadedImages (metrics t) + 1\<rparr> in
      if loadedImages m = totalImages m then
        (let m' = m\<lparr>imageLoadEnd := now\<rparr>;
             loadTime = imageLoadEnd m' - imageLoadStart m'
         in (completion_outcome e, completion_events e loadTime (totalImages m'),
             t\<lparr>metrics := m'\<rparr>))
      else (Returned, [], t\<lparr>metrics := m\<rparr>))"

definition getProgress :: "tracker \<Rightarrow> jsnum" where
  "getProgress t =
     (if 0 < totalImages (metrics t)
      then js_div (loadedImages (metrics t)) (totalImages (metrics t))
      else Num 0)"

definition isImageCached :: "image_source \<Rightarrow> tracker \<Rightarrow> bool" where
  "isImageCached imageSource t = set_has (imageKey imageSource) (imageCache t)"

definition cacheImage :: "image_source \<Rightarrow> tracker \<Rightarrow> tracker" where
  "cacheImage imageSource t =
     (let k = imageKey imageSource;
          c = imageCache t;
          c' = (if maxCacheSize \<le> length c then
                  (case set_first c of
                     Some firstItem \<Rightarrow> if truthy firstItem then set_delete firstItem c else c
                   | None \<Rightarrow> c)
                else c)
      in t\<lparr>imageCache := set_add k c'\<rparr>)"

definition clearCache :: "env \<Rightarrow> tracker \<Rightarrow> event list \<times> tracker" where
  "clearCache e t = ((if dev e then [LogCacheCleared] else []), t\<lparr>imageCache := []\<rparr>)"

definition getMetrics :: "tracker \<Rightarrow> metrics" where
  "getMetrics t = metrics t"

section \<open>Sequences of calls\<close>

text \<open>
  The public operations that change the tracker, and a run of them from a given state.
  Every call comes with the clock reading it would see. A call that throws has already
  written its changes, and the next call finds them.
\<close>

datatype call = StartTracking int | OnImageLoaded | CacheImage image_source | ClearCache

fun step :: "env \<Rightarrow> int \<Rightarrow> call \<Rightarrow> tracker \<Rightarrow> event list \<times> tracker" where
  "step e now (StartTracking n) t = startTracking e now n t"
| "step e now OnImageLoaded t = snd (onImageLoaded e now t)"
| "step e now (CacheImage src) t = ([], cacheImage src t)"
| "step e now ClearCache t = clearCache e t"

fun run :: "env \<Rightarrow> (int \<times> call) list \<Rightarrow> tracker \<Rightarrow> event list \<times> tracker" where
  "run e [] t = ([], t)"
| "run e ((now, c) # cs) t =
     (let (evs, t') = step e now c t; (evs', t'') = run e cs t' in (evs @ evs', t''))"

text \<open>\<open>onImageLoaded()\<close> called once for each clock reading of the list.\<close>

definition onImageLoaded_times :: "env \<Rightarrow> int list \<Rightarrow> tracker \<Rightarrow> event list \<times> tracker" where
  "onImageLoaded_times e nows t = run e (map (\<lambda>now. (now, OnImageLoaded)) nows) t"

text \<open>Two concrete hosts: a browser in a development build, and a native release build.\<close>

definition browser_dev :: env where
  "browser_dev =
     \<lparr>os_web = True, has_performance = True, dev = True, clearMarks_throws = False,
      measure_throws = False, usedJSHeapSize = Some 52428800\<rparr>"

definition native_release :: env where
  "native_release =
     \<lparr>os_web = False, has_performance = False, dev = False, clearMarks_throws = False,
      measure_throws = False, usedJSHeapSize = None\<rparr>"

text \<open>The tracker after \<open>k\<close> increments of the loaded count and nothing else.\<close>

definition add_loaded :: "int \<Rightarrow> tracker \<Rightarrow> tracker" where
  "add_loaded k t = t\<lparr>metrics := (metrics t)\<lparr>loadedImages := loadedImages (metrics t) + k\<rparr>\<rparr>"

text \<open>Recognisers for the completion log line and for the duration measurement.\<close>

fun is_completion_log :: "event \<Rightarrow> bool" where
  "is_completion_log (LogLoadingComplete _ _) = True"
| "is_completion_log _ = False"

fun is_measurement :: "event \<Rightarrow> bool" where
  "is_measurement (PerfMeasure _ _ _) = True"
| "is_measurement _ = False"

text \<open>
  Fifty sources with distinct keys: the numbers 101 to 150, of the kind a bundler hands
  out for required assets.
\<close>

definition fifty_sources :: "image_source list" where
  "fifty_sources = map (\<lambda>i. SrcNumber (int i)) [101..<151]"

text \<open>The tracker after caching the fifty sources, oldest first.\<close>

definition full_tracker :: tracker where
  "full_tracker = fold cacheImage fifty_sources imagePerformance"

text \<open>
  The tracker after \<open>cacheImage("")\<close> followed by \<open>cacheImage\<close> of the sources 101 to
  149.
\<close>

definition blank_oldest_tracker :: tracker where
  "blank_oldest_tracker = fold cacheImage (SrcString [] # butlast fifty_sources) imagePerformance"

section \<open>The lazy image component\<close>

text \<open>
  \<open>LazyImage\<close> as a state machine: the props that decide its behaviour, its four state
  variables, what it renders inside its container, and its two handlers of the image's
  events. Styles, the resize mode and the threshold take no part in the control flow
  modelled here.
\<close>

record lazy_props =
  source :: image_source
  has_placeholder :: bool
  has_onLoad :: bool
  has_onError :: bool
  priority_high :: bool

record lazy_state =
  isLoaded :: bool
  isInView :: bool
  hasError :: bool
  shouldLoad :: bool

definition initial_state :: "lazy_props \<Rightarrow> lazy_state" where
  "initial_state p =
     \<lparr>isLoaded = False, isInView = False, hasError = False, shouldLoad = priority_high p\<rparr>"

text \<open>The children of the container; the image carries whether it is shown at full opacity.\<close>

datatype node = CustomPlaceholder | DefaultPlaceholder | ErrorPlaceholder | ImageNode bool

fun is_image :: "node \<Rightarrow> bool" where
  "is_image (ImageNode _) = True"
| "is_image _ = False"

text \<open>\<open>placeholder || defaultPlaceholder\<close>\<close>

definition placeholder_node :: "lazy_props \<Rightarrow> node" where
  "placeholder_node p = (if has_placeholder p then CustomPlaceholder else DefaultPlaceholder)"

definition render :: "lazy_props \<Rightarrow> tracker \<Rightarrow> lazy_state \<Rightarrow> node list" where
  "render p t st =
     (let isCached = isImageCached (source p) t in
      if isCached \<and> \<not> hasError st then [ImageNode True]
      else
        (if \<not> shouldLoad st then [placeholder_node p] else [])
        @ (if shouldLoad st \<and> \<not> hasError st then
             (if \<not> isLoaded st then [placeholder_node p] else []) @ [ImageNode (isLoaded st)]
           else [])
        @ (if hasError st then [ErrorPlaceholder] else []))"

text \<open>
  \<open>handleImageLoad\<close>: the state update is queued first, so it stands even when
  \<open>onImageLoaded\<close> throws; the throw skips the caller's callback and the release timer.
\<close>

definition handleImageLoad ::
  "env \<Rightarrow> int \<Rightarrow> lazy_props \<Rightarrow> lazy_state \<times> tracker
     \<Rightarrow> outcome \<times> event list \<times> lazy_state \<times> tracker" where
  "handleImageLoad e now p s =
     (let st = (fst s)\<lparr>isLoaded := True\<rparr>;
          t1 = cacheImage (source p) (snd s);
          (out, evs, t2) = onImageLoaded e now t1
      in case out of
           Threw err \<Rightarrow> (Threw err, evs, st, t2)
         | Returned \<Rightarrow>
             (Returned,
              evs @ (if has_onLoad p then [CallOnLoad] else [])
                  @ (if \<not> os_web e then [ScheduleRelease 100] else []),
              st, t2))"

definition handleImageError ::
  "lazy_props \<Rightarrow> lazy_state \<times> tracker \<Rightarrow> event list \<times> lazy_state \<times> tracker" where
  "handleImageError p s =
     ([WarnImageFailed (source p)] @ (if has_onError p then [CallOnError] else []),
      (fst s)\<lparr>hasError := True\<rparr>, snd s)"

fun is_error_callback :: "event \<Rightarrow> bool" where
  "is_error_callback CallOnError = True"
| "is_error_callback _ = False"

text \<open>A run in which no \<open>cacheImage\<close> call has a source whose key is the empty string.\<close>

fun blank_free :: "(int \<times> call) list \<Rightarrow> bool" where
  "blank_free [] = True"
| "blank_free ((now, CacheImage src) # cs) = (imageKey src \<noteq> [] \<and> blank_free cs)"
| "blank_free (_ # cs) = blank_free cs"

section \<open>Single calls and runs of \<open>onImageLoaded\<close>\<close>

lemma run_append:
  "run e (xs @ ys) t =
     (let (a, t') = run e xs t; (b, t'') = run e ys t' in (a @ b, t''))"
  by (induction xs arbitrary: t) (auto simp: split_beta Let_def)

lemma onImageLoaded_times_Nil: "onImageLoaded_times e [] t = ([], t)"
  by (simp add: onImageLoaded_times_def)

lemma onImageLoaded_times_Cons:
  "onImageLoaded_times e (now # nows) t =
     (let (evs, t') = snd (onImageLoaded e now t); (evs', t'') = onImageLoaded_times e nows t'
      in (evs @ evs', t''))"
  by (simp add: onImageLoaded_times_def)

lemma onImageLoaded_times_append:
  "onImageLoaded_times e (xs @ ys) t =
     (let (a, t') = onImageLoaded_times e xs t; (b, t'') = onImageLoaded_times e ys t'
      in (a @ b, t''))"
  by (simp add: onImageLoaded_times_def run_append)

lemma onImageLoaded_silent:
  "loadedImages (metrics t) + 1 \<noteq> totalImages (metrics t) \<Longrightarrow>
   onImageLoaded e now t = (Returned, [], add_loaded 1 t)"
  by (simp add: onImageLoaded_def add_loaded_def Let_def)

lemma onImageLoaded_completes:
  "loadedImages (metrics t) + 1 = totalImages (metrics t) \<Longrightarrow>
   onImageLoaded e now t =
     (completion_outcome e,
      completion_events e (now - imageLoadStart (metrics t)) (totalImages (metrics t)),
      t\<lparr>metrics := (metrics t)\<lparr>loadedImages := totalImages (metrics t), imageLoadEnd := now\<rparr>\<rparr>)"
  by (simp add: onImageLoaded_def Let_def)

lemma add_loaded_add: "add_loaded a (add_loaded b t) = add_loaded (b + a) t"
  by (simp add: add_loaded_def add.assoc)

lemma add_loaded_0: "add_loaded 0 t = t"
  by (simp add: add_loaded_def)

text \<open>
  A run of calls that neither starts at nor passes through \<open>loaded + 1 = total\<close> only
  counts.
\<close>

lemma onImageLoaded_times_silent:
  "totalImages (metrics t) \<le> loadedImages (metrics t) \<or>
   loadedImages (metrics t) + int (length nows) < totalImages (metrics t) \<Longrightarrow>
   onImageLoaded_times e nows t = ([], add_loaded (int (length nows)) t)"
proof (induction nows arbitrary: t)
  case Nil
  show ?case by (simp add: onImageLoaded_times_Nil add_loaded_0)
next
  case (Cons now nows)
  have ne: "loadedImages (metrics t) + 1 \<noteq> totalImages (metrics t)"
    using Cons.prems by auto
  have nxt: "totalImages (metrics (add_loaded 1 t)) \<le> loadedImages (metrics (add_loaded 1 t)) \<or>
     loadedImages (metrics (add_loaded 1 t)) + int (length nows)
       < totalImages (metrics (add_loaded 1 t))"
    using Cons.prems by (auto simp: add_loaded_def)
  show ?case
    by (simp add: onImageLoaded_times_Cons onImageLoaded_silent [OF ne] Cons.IH [OF nxt]
        add_loaded_add)
qed

lemma completion_events_logs:
  "filter is_completion_log (completion_events e d n)
     = (if dev e then [LogLoadingComplete d n] else [])"
  by (cases "usedJSHeapSize e") (simp_all add: completion_events_def)

lemma completion_events_measures:
  "filter is_measurement (completion_events e d n)
     = (if os_web e \<and> has_performance e
        then [PerfMeasure ''image-loading-duration'' ''image-loading-start'' ''image-loading-end'']
        else [])"
  by (cases "usedJSHeapSize e") (simp_all add: completion_events_def)

text \<open>A run that ends exactly at the total emits the completion output once, at its last call.\<close>

lemma onImageLoaded_times_exact:
  assumes "nows \<noteq> []"
    and "loadedImages (metrics t) + int (length nows) = totalImages (metrics t)"
  shows "onImageLoaded_times e nows t =
     (completion_events e (last nows - imageLoadStart (metrics t)) (totalImages (metrics t)),
      t\<lparr>metrics := (metrics t)\<lparr>loadedImages := totalImages (metrics t),
                                 imageLoadEnd := last nows\<rparr>\<rparr>)"
proof -
  from assms(1) obtain xs x where nows: "nows = xs @ [x]"
    by (cases nows rule: rev_cases) auto
  have quiet: "onImageLoaded_times e xs t = ([], add_loaded (int (length xs)) t)"
    by (rule onImageLoaded_times_silent) (use assms(2) nows in simp)
  have fin: "loadedImages (metrics (add_loaded (int (length xs)) t)) + 1
      = totalImages (metrics (add_loaded (int (length xs)) t))"
    using assms(2) nows by (simp add: add_loaded_def)
  have "snd (onImageLoaded e x (add_loaded (int (length xs)) t)) =
     (completion_events e (x - imageLoadStart (metrics t)) (totalImages (metrics t)),
      t\<lparr>metrics := (metrics t)\<lparr>loadedImages := totalImages (metrics t),
                                 imageLoadEnd := x\<rparr>\<rparr>)"
    unfolding onImageLoaded_completes [OF fin] by (simp add: add_loaded_def)
  then show ?thesis
    unfolding nows onImageLoaded_times_append quiet
    by (simp add: onImageLoaded_times_Cons onImageLoaded_times_Nil)
qed

section \<open>Claims about the progress counters\<close>

text \<open>
  Claim C2, amended to positive \<open>n\<close>: after \<open>startTracking(n)\<close> with \<open>n > 0\<close>, calling
  \<open>onImageLoaded()\<close> exactly \<open>n\<close> times makes \<open>getProgress()\<close> equal to 1, and the whole
  output of the \<open>n\<close> calls is the output of the completion branch taken once, at the
  last call: the end time is that call's clock reading, a development build logs the
  completion line exactly once, and a browser with a timeline measures exactly once.
\<close>

theorem all_images_loaded:
  assumes "0 < n" and "length nows = nat n"
  shows "getProgress (snd (onImageLoaded_times e nows (snd (startTracking e now0 n t)))) = Num 1
    \<and> fst (onImageLoaded_times e nows (snd (startTracking e now0 n t)))
        = completion_events e (last nows - now0) n
    \<and> imageLoadEnd (metrics (snd (onImageLoaded_times e nows (snd (startTracking e now0 n t)))))
        = last nows
    \<and> (dev e \<longrightarrow>
         filter is_completion_log
           (fst (onImageLoaded_times e nows (snd (startTracking e now0 n t))))
         = [LogLoadingComplete (last nows - now0) n])
    \<and> (os_web e \<and> has_performance e \<longrightarrow>
         length (filter is_measurement
           (fst (onImageLoaded_times e nows (snd (startTracking e now0 n t))))) = 1)"
proof -
  let ?t1 = "snd (startTracking e now0 n t)"
  have ne: "nows \<noteq> []" using assms by auto
  have cnt: "loadedImages (metrics ?t1) + int (length nows) = totalImages (metrics ?t1)"
    using assms by (simp add: startTracking_def)
  have r: "onImageLoaded_times e nows ?t1 =
     (completion_events e (last nows - now0) n,
      ?t1\<lparr>metrics := (metrics ?t1)\<lparr>loadedImages := n, imageLoadEnd := last nows\<rparr>\<rparr>)"
    using onImageLoaded_times_exact [OF ne cnt, of e] by (simp add: startTracking_def)
  show ?thesis
    unfolding r using assms(1)
    by (simp add: getProgress_def js_div_def startTracking_def completion_events_logs
        completion_events_measures)
qed

theorem all_images_loaded_witness:
  "getProgress (snd (onImageLoaded_times browser_dev [10, 20, 30]
      (snd (startTracking browser_dev 5 3 imagePerformance)))) = Num 1
   \<and> filter is_completion_log (fst (onImageLoaded_times browser_dev [10, 20, 30]
      (snd (startTracking browser_dev 5 3 imagePerformance)))) = [LogLoadingComplete 25 3]"
  using all_images_loaded [of 3 "[10, 20, 30]" browser_dev 5 imagePerformance]
  by (simp add: browser_dev_def completion_events_def)

text \<open>
  For \<open>n = 0\<close> the claim as first stated fails: no call of \<open>onImageLoaded()\<close> is made, so
  nothing is logged, and \<open>getProgress()\<close> takes its guarded branch and returns 0.
\<close>

theorem zero_images_counterexample:
  "getProgress (snd (onImageLoaded_times browser_dev []
      (snd (startTracking browser_dev 5 0 imagePerformance)))) \<noteq> Num 1
   \<and> filter is_completion_log (fst (onImageLoaded_times browser_dev []
      (snd (startTracking browser_dev 5 0 imagePerformance)))) = []"
  by (simp add: onImageLoaded_times_Nil getProgress_def startTracking_def)

text \<open>The loaded count never goes below zero: it is reset to 0 or incremented.\<close>

lemma step_loaded_nonneg:
  "0 \<le> loadedImages (metrics t) \<Longrightarrow> 0 \<le> loadedImages (metrics (snd (step e now c t)))"
  by (cases c) (auto simp: startTracking_def onImageLoaded_def cacheImage_def clearCache_def Let_def)

lemma run_loaded_nonneg:
  "0 \<le> loadedImages (metrics t) \<Longrightarrow> 0 \<le> loadedImages (metrics (snd (run e cs t)))"
proof (induction cs arbitrary: t)
  case Nil
  then show ?case by simp
next
  case (Cons a cs)
  obtain now c where a: "a = (now, c)" by (cases a)
  have "0 \<le> loadedImages (metrics (snd (step e now c t)))"
    using Cons.prems by (rule step_loaded_nonneg)
  from Cons.IH [OF this] show ?case
    by (simp add: a split_beta Let_def)
qed

lemma getProgress_cases:
  "0 \<le> loadedImages (metrics t) \<Longrightarrow>
   non_negative (getProgress t) \<and>
   in_unit_interval (getProgress t) =
     (totalImages (metrics t) \<le> 0 \<or> loadedImages (metrics t) \<le> totalImages (metrics t))"
  by (auto simp: getProgress_def js_div_def non_negative_def in_unit_interval_def)

text \<open>
  Claim C1, amended: after every sequence of calls on the fresh tracker, \<open>getProgress()\<close>
  returns a finite number that is not negative, and that number lies in the interval from
  0 to 1 exactly when the total is not positive or the loaded count does not exceed the
  total, that is, as long as \<open>onImageLoaded()\<close> has not been called more often than the
  \<open>n\<close> of the last \<open>startTracking(n)\<close>.
\<close>

theorem getProgress_after_run:
  "non_negative (getProgress (snd (run e cs imagePerformance)))
   \<and> in_unit_interval (getProgress (snd (run e cs imagePerformance)))
     = (totalImages (metrics (snd (run e cs imagePerformance))) \<le> 0
        \<or> loadedImages (metrics (snd (run e cs imagePerformance)))
            \<le> totalImages (metrics (snd (run e cs imagePerformance))))"
proof -
  have "0 \<le> loadedImages (metrics (snd (run e cs imagePerformance)))"
    by (rule run_loaded_nonneg) (simp add: imagePerformance_def)
  then show ?thesis by (rule getProgress_cases)
qed

theorem getProgress_after_run_witness:
  "in_unit_interval (getProgress (snd (run native_release
     [(0, StartTracking 3), (4, OnImageLoaded), (9, OnImageLoaded)] imagePerformance)))"
  using getProgress_after_run
    [of native_release "[(0, StartTracking 3), (4, OnImageLoaded), (9, OnImageLoaded)]"]
  by (simp add: startTracking_def onImageLoaded_def imagePerformance_def Let_def)

text \<open>
  The interval is left by one call too many: \<open>startTracking(1)\<close> and two loads give a
  progress of 2.
\<close>

theorem getProgress_overcount_counterexample:
  "getProgress (snd (run native_release
     [(0, StartTracking 1), (4, OnImageLoaded), (9, OnImageLoaded)] imagePerformance)) = Num 2
   \<and> \<not> in_unit_interval (getProgress (snd (run native_release
     [(0, StartTracking 1), (4, OnImageLoaded), (9, OnImageLoaded)] imagePerformance)))"
  by (simp add: startTracking_def onImageLoaded_def imagePerformance_def Let_def
      getProgress_def js_div_def in_unit_interval_def)

text \<open>
  Claim C3: \<open>getProgress()\<close> is the quotient of the loaded count by the total when the total
  is positive and 0 when the total is 0, and its result is never \<open>NaN\<close> nor an infinity,
  the results of a JavaScript division by zero.
\<close>

theorem getProgress_guarded:
  "(0 < totalImages (metrics t) \<longrightarrow>
      getProgress t
        = Num (real_of_int (loadedImages (metrics t)) / real_of_int (totalImages (metrics t))))
   \<and> (totalImages (metrics t) = 0 \<longrightarrow> getProgress t = Num 0)
   \<and> getProgress t \<noteq> NaN \<and> getProgress t \<noteq> Infinity \<and> getProgress t \<noteq> NegInfinity"
  by (simp add: getProgress_def js_div_def)

theorem getProgress_guarded_witness:
  "getProgress (snd (startTracking native_release 7 0 imagePerformance)) = Num 0
   \<and> getProgress (snd (snd (onImageLoaded native_release 9
        (snd (startTracking native_release 7 4 imagePerformance))))) = Num (1 / 4)"
  using getProgress_guarded [of "snd (startTracking native_release 7 0 imagePerformance)"]
    getProgress_guarded [of "snd (snd (onImageLoaded native_release 9
        (snd (startTracking native_release 7 4 imagePerformance))))"]
  by (simp add: startTracking_def onImageLoaded_def imagePerformance_def Let_def)

text \<open>What a call of \<open>onImageLoaded()\<close> never changes, and what it always does.\<close>

lemma onImageLoaded_counts:
  "loadedImages (metrics (snd (snd (onImageLoaded e now t)))) = loadedImages (metrics t) + 1
   \<and> totalImages (metrics (snd (snd (onImageLoaded e now t)))) = totalImages (metrics t)
   \<and> imageLoadStart (metrics (snd (snd (onImageLoaded e now t)))) = imageLoadStart (metrics t)
   \<and> imageCache (snd (snd (onImageLoaded e now t))) = imageCache t"
  by (simp add: onImageLoaded_def Let_def)

lemma onImageLoaded_times_counts:
  "loadedImages (metrics (snd (onImageLoaded_times e nows t)))
     = loadedImages (metrics t) + int (length nows)
   \<and> totalImages (metrics (snd (onImageLoaded_times e nows t))) = totalImages (metrics t)"
proof (induction nows arbitrary: t)
  case Nil
  show ?case by (simp add: onImageLoaded_times_Nil)
next
  case (Cons now nows)
  show ?case
    using Cons.IH [of "snd (snd (onImageLoaded e now t))"] onImageLoaded_counts [of e now t]
    by (simp add: onImageLoaded_times_Cons split_beta Let_def)
qed

text \<open>
  Claim C4: after \<open>startTracking(n)\<close> the loaded count equals the number of
  \<open>onImageLoaded()\<close> calls made, however many, so it passes the total; a call whose
  incremented count differs from the total emits nothing and leaves the end time alone;
  and from a state whose loaded count exceeds the total, any further calls of the session
  emit nothing, leave the end time alone and keep the count above the total.
\<close>

theorem overcount_skips_completion:
  "loadedImages (metrics (snd (onImageLoaded_times e nows (snd (startTracking e now0 n t)))))
     = int (length nows)
   \<and> (loadedImages (metrics t) + 1 \<noteq> totalImages (metrics t) \<longrightarrow>
        fst (snd (onImageLoaded e now t)) = []
        \<and> imageLoadEnd (metrics (snd (snd (onImageLoaded e now t)))) = imageLoadEnd (metrics t))
   \<and> (totalImages (metrics t) < loadedImages (metrics t) \<longrightarrow>
        fst (onImageLoaded_times e nows t) = []
        \<and> imageLoadEnd (metrics (snd (onImageLoaded_times e nows t))) = imageLoadEnd (metrics t)
        \<and> loadedImages (metrics (snd (onImageLoaded_times e nows t)))
            = loadedImages (metrics t) + int (length nows)
        \<and> totalImages (metrics (snd (onImageLoaded_times e nows t)))
            < loadedImages (metrics (snd (onImageLoaded_times e nows t))))"
proof (intro conjI impI)
  show "loadedImages (metrics (snd (onImageLoaded_times e nows (snd (startTracking e now0 n t)))))
     = int (length nows)"
    using onImageLoaded_times_counts [of e nows "snd (startTracking e now0 n t)"]
    by (simp add: startTracking_def)
next
  assume "loadedImages (metrics t) + 1 \<noteq> totalImages (metrics t)"
  then have r: "onImageLoaded e now t = (Returned, [], add_loaded 1 t)"
    by (rule onImageLoaded_silent)
  show "fst (snd (onImageLoaded e now t)) = []" by (simp add: r)
  show "imageLoadEnd (metrics (snd (snd (onImageLoaded e now t)))) = imageLoadEnd (metrics t)"
    by (simp add: r add_loaded_def)
next
  assume over: "totalImages (metrics t) < loadedImages (metrics t)"
  then have r: "onImageLoaded_times e nows t = ([], add_loaded (int (length nows)) t)"
    by (intro onImageLoaded_times_silent) simp
  show "fst (onImageLoaded_times e nows t) = []" by (simp add: r)
  show "imageLoadEnd (metrics (snd (onImageLoaded_times e nows t))) = imageLoadEnd (metrics t)"
    by (simp add: r add_loaded_def)
  show "loadedImages (metrics (snd (onImageLoaded_times e nows t)))
            = loadedImages (metrics t) + int (length nows)"
    by (simp add: r add_loaded_def)
  show "totalImages (metrics (snd (onImageLoaded_times e nows t)))
            < loadedImages (metrics (snd (onImageLoaded_times e nows t)))"
    using over by (simp add: r add_loaded_def)
qed

theorem overcount_skips_completion_witness:
  "fst (onImageLoaded_times browser_dev [6, 7]
        (snd (onImageLoaded_times browser_dev [3, 4, 5]
          (snd (startTracking browser_dev 1 2 imagePerformance))))) = []
   \<and> fst (snd (onImageLoaded browser_dev 8
        (snd (onImageLoaded_times browser_dev [3, 4, 5]
          (snd (startTracking browser_dev 1 2 imagePerformance)))))) = []
   \<and> loadedImages (metrics (snd (onImageLoaded_times browser_dev [6, 7]
        (snd (onImageLoaded_times browser_dev [3, 4, 5]
          (snd (startTracking browser_dev 1 2 imagePerformance))))))) = 5"
  using overcount_skips_completion [of browser_dev "[6, 7]" 1 2
      "snd (onImageLoaded_times browser_dev [3, 4, 5]
          (snd (startTracking browser_dev 1 2 imagePerformance)))" 8]
  by (simp add: startTracking_def onImageLoaded_times_Cons onImageLoaded_times_Nil
      onImageLoaded_def imagePerformance_def Let_def)

text \<open>
  Claim C9: \<open>startTracking(n)\<close> sets the start time, the total and a loaded count of 0, and
  leaves the end time (and the cache) as they were, so the snapshot of \<open>getMetrics()\<close>
  still carries the end time of the session before; in the run shown that end time, 25,
  is earlier than the new start, 900.
\<close>

theorem startTracking_keeps_end:
  "imageLoadEnd (metrics (snd (startTracking e now n t))) = imageLoadEnd (metrics t)
   \<and> imageLoadStart (metrics (snd (startTracking e now n t))) = now
   \<and> totalImages (metrics (snd (startTracking e now n t))) = n
   \<and> loadedImages (metrics (snd (startTracking e now n t))) = 0
   \<and> imageCache (snd (startTracking e now n t)) = imageCache t
   \<and> imageLoadEnd (getMetrics (snd (startTracking e now n t))) = imageLoadEnd (getMetrics t)
   \<and> getMetrics (snd (run native_release
         [(10, StartTracking 1), (25, OnImageLoaded), (900, StartTracking 4)] imagePerformance))
       = \<lparr>imageLoadStart = 900, imageLoadEnd = 25, totalImages = 4, loadedImages = 0\<rparr>"
  by (simp add: startTracking_def getMetrics_def onImageLoaded_def imagePerformance_def Let_def)

section \<open>The cache set\<close>

text \<open>
  \<open>cacheImage\<close> in one equation: the oldest entry goes when the set is at capacity and
  that entry is truthy, then the key is added if it is not there.
\<close>

lemma cacheImage_cases:
  "imageCache (cacheImage src t) =
     set_add (imageKey src)
       (if maxCacheSize \<le> length (imageCache t) \<and> hd (imageCache t) \<noteq> []
        then removeAll (hd (imageCache t)) (imageCache t) else imageCache t)"
  by (cases "imageCache t")
     (simp_all add: cacheImage_def set_first_def truthy_def set_delete_def maxCacheSize_def Let_def)

lemma removeAll_hd_distinct: "distinct c \<Longrightarrow> c \<noteq> [] \<Longrightarrow> removeAll (hd c) c = tl c"
  by (cases c) (simp_all add: removeAll_id)

lemma cacheImage_distinct:
  "distinct (imageCache t) \<Longrightarrow> distinct (imageCache (cacheImage src t))"
  by (simp add: cacheImage_cases set_add_def distinct_removeAll)

lemma cacheImage_metrics: "metrics (cacheImage src t) = metrics t"
  by (simp add: cacheImage_def Let_def)

lemma cacheImage_has: "isImageCached src (cacheImage src t)"
  by (simp add: isImageCached_def cacheImage_cases set_add_def set_has_def)

text \<open>
  Claim C6, amended to non-empty strings: for every non-empty string \<open>s\<close>, the plain
  string \<open>s\<close> and an object whose \<open>uri\<close> is \<open>s\<close> have the same key, so \<open>isImageCached\<close>
  answers the same for both in every state, and after \<open>cacheImage\<close> of either form it
  answers true for both.
\<close>

theorem key_normalisation:
  assumes "s \<noteq> []"
  shows "imageKey (SrcObject (Some s)) = imageKey (SrcString s)
    \<and> isImageCached (SrcString s) t = isImageCached (SrcObject (Some s)) t
    \<and> isImageCached (SrcString s) (cacheImage (SrcString s) t)
    \<and> isImageCached (SrcObject (Some s)) (cacheImage (SrcString s) t)
    \<and> isImageCached (SrcString s) (cacheImage (SrcObject (Some s)) t)
    \<and> isImageCached (SrcObject (Some s)) (cacheImage (SrcObject (Some s)) t)"
proof -
  have k: "imageKey (SrcObject (Some s)) = imageKey (SrcString s)"
    using assms by (simp add: truthy_def)
  have same: "isImageCached (SrcObject (Some s)) u = isImageCached (SrcString s) u" for u
    by (simp only: isImageCached_def k)
  show ?thesis
    using cacheImage_has [of "SrcString s" t] cacheImage_has [of "SrcObject (Some s)" t]
    by (simp only: k same simp_thms)
qed

theorem key_normalisation_witness:
  "isImageCached (SrcString ''a'') (cacheImage (SrcObject (Some ''a'')) imagePerformance)
   \<and> isImageCached (SrcObject (Some ''a'')) (cacheImage (SrcString ''a'') imagePerformance)"
  using key_normalisation [of "''a''" imagePerformance] by simp

text \<open>
  For the empty string the two forms have different keys, the empty string itself and
  \<open>[object Object]\<close>: after caching one form, \<open>isImageCached\<close> is true for that form and
  false for the other.
\<close>

theorem empty_uri_counterexample:
  "isImageCached (SrcString []) (cacheImage (SrcString []) imagePerformance)
   \<and> \<not> isImageCached (SrcObject (Some [])) (cacheImage (SrcString []) imagePerformance)
   \<and> \<not> isImageCached (SrcString []) (cacheImage (SrcObject (Some [])) imagePerformance)
   \<and> isImageCached (SrcObject (Some [])) (cacheImage (SrcObject (Some [])) imagePerformance)"
  by (simp add: isImageCached_def cacheImage_cases set_add_def set_has_def truthy_def
      imagePerformance_def)

text \<open>
  Claim C7, amended: calling \<open>cacheImage\<close> with an identifier already in the set does
  not move it to the freshest position, unless the set is at capacity and the identifier
  is itself the oldest entry. Apart from that case the set keeps its order and loses at
  most its first entry, the freshest entry stays the freshest, and below capacity nothing
  changes: eviction is by insertion order, not by recency of use.
\<close>

theorem reinsertion_keeps_order:
  assumes "distinct (imageCache t)"
    and "imageKey src \<in> set (imageCache t)"
    and "\<not> (maxCacheSize \<le> length (imageCache t) \<and> hd (imageCache t) = imageKey src)"
  shows "(imageCache (cacheImage src t) = imageCache t
          \<or> imageCache (cacheImage src t) = tl (imageCache t))
    \<and> last (imageCache (cacheImage src t)) = last (imageCache t)
    \<and> imageKey src \<in> set (imageCache (cacheImage src t))
    \<and> (length (imageCache t) < maxCacheSize \<longrightarrow> imageCache (cacheImage src t) = imageCache t)"
proof (cases "maxCacheSize \<le> length (imageCache t) \<and> hd (imageCache t) \<noteq> []")
  case False
  have "imageCache (cacheImage src t) = imageCache t"
    unfolding cacheImage_cases if_not_P [OF False] using assms(2) by (simp add: set_add_def)
  then show ?thesis using assms(2) by simp
next
  case True
  from assms(2) have ne: "imageCache t \<noteq> []" by auto
  from True assms(3) have k: "hd (imageCache t) \<noteq> imageKey src" by simp
  have "imageKey src \<in> set (tl (imageCache t))"
    using assms(2) k ne by (cases "imageCache t") auto
  moreover have "imageCache (cacheImage src t) = set_add (imageKey src) (tl (imageCache t))"
    unfolding cacheImage_cases if_P [OF True] removeAll_hd_distinct [OF assms(1) ne] ..
  ultimately have r: "imageCache (cacheImage src t) = tl (imageCache t)"
    by (simp add: set_add_def)
  have "tl (imageCache t) \<noteq> []" using \<open>imageKey src \<in> set (tl (imageCache t))\<close> by auto
  then have "last (tl (imageCache t)) = last (imageCache t)"
    by (simp add: last_tl)
  then show ?thesis using r True \<open>imageKey src \<in> set (tl (imageCache t))\<close> by simp
qed


text \<open>The two concrete caches, entry by entry.\<close>

lemma full_tracker_cache:
  "imageCache full_tracker =
     [''101'', ''102'', ''103'', ''104'', ''105'', ''106'', ''107'', ''108'',
      ''109'', ''110'', ''111'', ''112'', ''113'', ''114'', ''115'', ''116'',
      ''117'', ''118'', ''119'', ''120'', ''121'', ''122'', ''123'', ''124'',
      ''125'', ''126'', ''127'', ''128'', ''129'', ''130'', ''131'', ''132'',
      ''133'', ''134'', ''135'', ''136'', ''137'', ''138'', ''139'', ''140'',
      ''141'', ''142'', ''143'', ''144'', ''145'', ''146'', ''147'', ''148'',
      ''149'', ''150'']"
  by code_simp

lemma blank_oldest_cache:
  "imageCache blank_oldest_tracker =
     [[], ''101'', ''102'', ''103'', ''104'', ''105'', ''106'', ''107'',
      ''108'', ''109'', ''110'', ''111'', ''112'', ''113'', ''114'', ''115'',
      ''116'', ''117'', ''118'', ''119'', ''120'', ''121'', ''122'', ''123'',
      ''124'', ''125'', ''126'', ''127'', ''128'', ''129'', ''130'', ''131'',
      ''132'', ''133'', ''134'', ''135'', ''136'', ''137'', ''138'', ''139'',
      ''140'', ''141'', ''142'', ''143'', ''144'', ''145'', ''146'', ''147'',
      ''148'', ''149'']"
  by code_simp

lemma imageKey_numbers:
  "imageKey (SrcNumber 101) = ''101''" "imageKey (SrcNumber 107) = ''107''"
  "imageKey (SrcNumber 150) = ''150''"
  by code_simp+


theorem reinsertion_keeps_order_witness:
  "last (imageCache (cacheImage (SrcNumber 107) full_tracker)) = last (imageCache full_tracker)
   \<and> imageKey (SrcNumber 107) \<in> set (imageCache full_tracker)
   \<and> maxCacheSize \<le> length (imageCache full_tracker)"
proof -
  have h1: "distinct (imageCache full_tracker)"
    by (simp add: full_tracker_cache)
  have h2: "imageKey (SrcNumber 107) \<in> set (imageCache full_tracker)"
    unfolding full_tracker_cache imageKey_numbers by simp
  have h3: "\<not> (maxCacheSize \<le> length (imageCache full_tracker)
              \<and> hd (imageCache full_tracker) = imageKey (SrcNumber 107))"
    unfolding full_tracker_cache imageKey_numbers by simp
  have h4: "maxCacheSize \<le> length (imageCache full_tracker)"
    by (simp add: full_tracker_cache maxCacheSize_def)
  from reinsertion_keeps_order [OF h1 h2 h3] h2 h4 show ?thesis by simp
qed

text \<open>
  At capacity, re-inserting the oldest entry does refresh it: \<open>101\<close> is evicted as the
  first entry and added again behind \<open>150\<close>.
\<close>

theorem oldest_reinserted_counterexample:
  "imageKey (SrcNumber 101) \<in> set (imageCache full_tracker)
   \<and> last (imageCache full_tracker) \<noteq> imageKey (SrcNumber 101)
   \<and> last (imageCache (cacheImage (SrcNumber 101) full_tracker)) = imageKey (SrcNumber 101)
   \<and> imageCache (cacheImage (SrcNumber 101) full_tracker)
       = tl (imageCache full_tracker) @ [imageKey (SrcNumber 101)]"
  unfolding cacheImage_cases full_tracker_cache imageKey_numbers maxCacheSize_def set_add_def
  by simp

text \<open>
  Claim C5 at the input \<open>cacheImage("")\<close>, \<open>cacheImage\<close> of the sources 101 to 149, then
  \<open>cacheImage\<close> of source 150: the set holds 50 entries with the empty string as the oldest;
  the test \<open>if (firstItem)\<close> takes the empty string for no entry at all, nothing is
  evicted, and the 51st identifier makes the set hold 51 entries.
\<close>

theorem blank_oldest_exceeds_capacity:
  "length (imageCache blank_oldest_tracker) = 50
   \<and> imageKey (SrcNumber 150) \<notin> set (imageCache blank_oldest_tracker)
   \<and> imageCache (cacheImage (SrcNumber 150) blank_oldest_tracker)
       = imageCache blank_oldest_tracker @ [imageKey (SrcNumber 150)]
   \<and> length (imageCache (cacheImage (SrcNumber 150) blank_oldest_tracker)) = 51
   \<and> \<not> length (imageCache (cacheImage (SrcNumber 150) blank_oldest_tracker)) \<le> maxCacheSize"
  unfolding cacheImage_cases blank_oldest_cache imageKey_numbers maxCacheSize_def set_add_def
  by simp

text \<open>
  Claim C10 at the same set of 50 entries with the empty string as the oldest: calling
  \<open>cacheImage\<close> with source 107, which is present and is not the oldest, evicts nothing
  and leaves the 50 entries as they are.
\<close>

theorem blank_oldest_not_evicted:
  "length (imageCache blank_oldest_tracker) = 50
   \<and> imageKey (SrcNumber 107) \<in> set (imageCache blank_oldest_tracker)
   \<and> hd (imageCache blank_oldest_tracker) \<noteq> imageKey (SrcNumber 107)
   \<and> imageCache (cacheImage (SrcNumber 107) blank_oldest_tracker) = imageCache blank_oldest_tracker
   \<and> length (imageCache (cacheImage (SrcNumber 107) blank_oldest_tracker)) = 50"
  unfolding cacheImage_cases blank_oldest_cache imageKey_numbers maxCacheSize_def set_add_def
  by simp

text \<open>
  With a non-empty oldest entry the set at capacity behaves as the comments of the class
  announce: a new identifier replaces the oldest entry, and a present one that is not the
  oldest still costs the oldest entry its place.
\<close>

lemma cacheImage_new_at_capacity:
  assumes "distinct (imageCache t)" and "length (imageCache t) = maxCacheSize"
    and "hd (imageCache t) \<noteq> []" and "imageKey src \<notin> set (imageCache t)"
  shows "imageCache (cacheImage src t) = tl (imageCache t) @ [imageKey src]"
proof -
  have ne: "imageCache t \<noteq> []" using assms(2) by (auto simp: maxCacheSize_def)
  have c: "maxCacheSize \<le> length (imageCache t) \<and> hd (imageCache t) \<noteq> []"
    using assms by simp
  have "imageKey src \<notin> set (tl (imageCache t))"
    using assms(4) ne by (cases "imageCache t") auto
  then show ?thesis
    unfolding cacheImage_cases if_P [OF c] removeAll_hd_distinct [OF assms(1) ne]
    by (simp add: set_add_def)
qed

lemma cacheImage_present_at_capacity:
  assumes "distinct (imageCache t)" and "length (imageCache t) = maxCacheSize"
    and "hd (imageCache t) \<noteq> []" and "imageKey src \<in> set (imageCache t)"
    and "hd (imageCache t) \<noteq> imageKey src"
  shows "imageCache (cacheImage src t) = tl (imageCache t)
    \<and> length (imageCache (cacheImage src t)) = 49"
proof -
  have ne: "imageCache t \<noteq> []" using assms(2) by (auto simp: maxCacheSize_def)
  have c: "maxCacheSize \<le> length (imageCache t) \<and> hd (imageCache t) \<noteq> []"
    using assms by simp
  have "imageKey src \<in> set (tl (imageCache t))"
    using assms(4,5) ne by (cases "imageCache t") auto
  then have "imageCache (cacheImage src t) = tl (imageCache t)"
    unfolding cacheImage_cases if_P [OF c] removeAll_hd_distinct [OF assms(1) ne]
    by (simp add: set_add_def)
  then show ?thesis using assms(2) by (simp add: maxCacheSize_def)
qed

text \<open>The bound of 50 holds as long as the empty string never enters the set.\<close>

lemma cacheImage_bounded:
  assumes "distinct (imageCache t)" and "[] \<notin> set (imageCache t)"
    and "length (imageCache t) \<le> maxCacheSize" and "imageKey src \<noteq> []"
  shows "length (imageCache (cacheImage src t)) \<le> maxCacheSize
    \<and> [] \<notin> set (imageCache (cacheImage src t))"
proof (cases "maxCacheSize \<le> length (imageCache t)")
  case True
  then have ne: "imageCache t \<noteq> []" by (auto simp: maxCacheSize_def)
  then have "hd (imageCache t) \<noteq> []" using assms(2) by (cases "imageCache t") auto
  with True have c: "maxCacheSize \<le> length (imageCache t) \<and> hd (imageCache t) \<noteq> []" by simp
  have "length (tl (imageCache t)) < maxCacheSize"
    using assms(3) ne by (cases "imageCache t") auto
  moreover have "[] \<notin> set (tl (imageCache t))"
    using assms(2) ne by (cases "imageCache t") auto
  ultimately show ?thesis
    unfolding cacheImage_cases if_P [OF c] removeAll_hd_distinct [OF assms(1) ne]
    using assms(4) by (auto simp: set_add_def)
next
  case False
  then have c: "\<not> (maxCacheSize \<le> length (imageCache t) \<and> hd (imageCache t) \<noteq> [])" by simp
  show ?thesis
    unfolding cacheImage_cases if_not_P [OF c]
    using False assms(2,4) by (auto simp: set_add_def)
qed

section \<open>The error path of the lazy image\<close>

text \<open>
  Claim C8: \<open>handleImageError\<close> marks the component as errored; the component then renders
  the error placeholder and no image; the error callback, when one was given, is invoked
  exactly once (and no callback is invoked when none was given); and the tracker, with
  its loaded count, is left as it was: \<open>onImageLoaded\<close> is not called on this path.
\<close>

theorem error_path:
  "hasError (fst (snd (handleImageError p (st, t))))
   \<and> ErrorPlaceholder \<in> set (render p (snd (snd (handleImageError p (st, t))))
                                 (fst (snd (handleImageError p (st, t)))))
   \<and> filter is_image (render p (snd (snd (handleImageError p (st, t))))
                          (fst (snd (handleImageError p (st, t))))) = []
   \<and> (has_onError p \<longrightarrow>
        filter is_error_callback (fst (handleImageError p (st, t))) = [CallOnError])
   \<and> (\<not> has_onError p \<longrightarrow> filter is_error_callback (fst (handleImageError p (st, t))) = [])
   \<and> snd (snd (handleImageError p (st, t))) = t
   \<and> loadedImages (metrics (snd (snd (handleImageError p (st, t))))) = loadedImages (metrics t)"
  by (simp add: handleImageError_def render_def placeholder_node_def Let_def)

theorem error_path_witness:
  "filter is_error_callback (fst (handleImageError
      \<lparr>source = SrcObject (Some ''a.png''), has_placeholder = False, has_onLoad = False,
       has_onError = True, priority_high = False\<rparr>
      (\<lparr>isLoaded = False, isInView = True, hasError = False, shouldLoad = True\<rparr>,
       imagePerformance))) = [CallOnError]
   \<and> filter is_error_callback (fst (handleImageError
      \<lparr>source = SrcObject (Some ''a.png''), has_placeholder = False, has_onLoad = False,
       has_onError = False, priority_high = False\<rparr>
      (\<lparr>isLoaded = False, isInView = True, hasError = False, shouldLoad = True\<rparr>,
       imagePerformance))) = []"
  using error_path [of "\<lparr>source = SrcObject (Some ''a.png''), has_placeholder = False,
       has_onLoad = False, has_onError = True, priority_high = False\<rparr>"
      "\<lparr>isLoaded = False, isInView = True, hasError = False, shouldLoad = True\<rparr>"
      imagePerformance]
    error_path [of "\<lparr>source = SrcObject (Some ''a.png''), has_placeholder = False,
       has_onLoad = False, has_onError = False, priority_high = False\<rparr>"
      "\<lparr>isLoaded = False, isInView = True, hasError = False, shouldLoad = True\<rparr>"
      imagePerformance]
  by simp

text \<open>The load path, for contrast, counts the image.\<close>

lemma handleImageLoad_counts:
  "loadedImages (metrics (snd (snd (snd (handleImageLoad e now p (st, t))))))
     = loadedImages (metrics t) + 1"
  using onImageLoaded_counts [of e now "cacheImage (source p) t"]
  by (cases "onImageLoaded e now (cacheImage (source p) t)")
     (auto simp: handleImageLoad_def Let_def cacheImage_metrics split: outcome.splits)


text \<open>Neither handler clears the error mark, and an errored component renders no image.\<close>

lemma hasError_stays:
  "hasError st \<Longrightarrow> hasError (fst (snd (snd (handleImageLoad e now p (st, t)))))
     \<and> hasError (fst (snd (handleImageError p (st, t))))"
  by (cases "onImageLoaded e now (cacheImage (source p) t)")
     (auto simp: handleImageLoad_def handleImageError_def Let_def split: outcome.splits)

lemma errored_renders_no_image: "hasError st \<Longrightarrow> filter is_image (render p t st) = []"
  by (simp add: render_def Let_def placeholder_node_def)

text \<open>The cache keeps its entries distinct, and in a blank-free run it keeps its bound.\<close>

lemma step_cache_invariant:
  assumes "distinct (imageCache t)" and "[] \<notin> set (imageCache t)"
    and "length (imageCache t) \<le> maxCacheSize" and "blank_free [(now, c)]"
  shows "distinct (imageCache (snd (step e now c t)))
    \<and> [] \<notin> set (imageCache (snd (step e now c t)))
    \<and> length (imageCache (snd (step e now c t))) \<le> maxCacheSize"
proof (cases c)
  case (StartTracking n)
  then show ?thesis using assms by (simp add: startTracking_def)
next
  case OnImageLoaded
  then show ?thesis using assms onImageLoaded_counts [of e now t] by simp
next
  case (CacheImage src)
  then have "imageKey src \<noteq> []" using assms(4) by simp
  from cacheImage_bounded [OF assms(1,2,3) this] cacheImage_distinct [OF assms(1)] CacheImage
  show ?thesis by simp
next
  case ClearCache
  then show ?thesis by (simp add: clearCache_def)
qed

lemma run_cache_invariant:
  assumes "distinct (imageCache t)" and "[] \<notin> set (imageCache t)"
    and "length (imageCache t) \<le> maxCacheSize" and "blank_free cs"
  shows "distinct (imageCache (snd (run e cs t)))
    \<and> [] \<notin> set (imageCache (snd (run e cs t)))
    \<and> length (imageCache (snd (run e cs t))) \<le> maxCacheSize"
  using assms
proof (induction cs arbitrary: t)
  case Nil
  then show ?case by simp
next
  case (Cons a cs)
  obtain now c where a: "a = (now, c)" by (cases a)
  have one: "blank_free [(now, c)]" and rest: "blank_free cs"
    using Cons.prems(4) by (cases c; simp add: a)+
  from step_cache_invariant [OF Cons.prems(1,2,3) one, of e]
  have "distinct (imageCache (snd (run e cs (snd (step e now c t)))))
    \<and> [] \<notin> set (imageCache (snd (run e cs (snd (step e now c t)))))
    \<and> length (imageCache (snd (run e cs (snd (step e now c t))))) \<le> maxCacheSize"
    using Cons.IH [of "snd (step e now c t)"] rest by blast
  then show ?case by (simp add: a split_beta Let_def)
qed

lemma blank_free_run_bounded:
  "blank_free cs \<Longrightarrow> length (imageCache (snd (run e cs imagePerformance))) \<le> maxCacheSize"
  using run_cache_invariant [of imagePerformance cs e] by (simp add: imagePerformance_def)

end
